theory Spec2Isabelle
  imports Main "HOL-Library.AList"
begin

section \<open>Data model of \<open>src/comfy-client.ts\<close>\<close>

text \<open>
  The embedding covers the two classes of the source, \<open>ComfyJob\<close> and \<open>ComfyClient\<close>,
  as far as they touch the job lifecycle: the private fields of a job, the \<open>#jobs\<close> map
  of a client, the socket's message listener and the queue endpoints that walk the map.

  Objects live in an explicit store: a job reference is an index into \<open>heap\<close>, a client
  reference an index into \<open>clients\<close>. The backend and the user are outside the program,
  so what they contribute is a parameter or a log:
  \<^item> the outcome of each \<open>fetch\<close> is an argument of the operation that issues it, and
    the request itself is appended to \<open>requests\<close>;
  \<^item> a user callback is an observer: the model records which callbacks a caller supplied
    and appends every invocation to \<open>calls\<close>. A callback that throws, or that calls back
    into the library, is outside the model;
  \<^item> every operation runs to its end before the next one starts; the interleavings that
    \<open>await\<close> allows are outside the model;
  \<^item> \<open>console.log\<close>, the socket's open/close/error listeners and the pass-through
    endpoints write none of the fields below and are left out.
\<close>

datatype ComfyJob_Status = Building | Queued | Running | Completed | Failed | Cancelled

type_synonym job_ref = nat
type_synonym client_ref = nat
type_synonym workflow = string
type_synonym errors = "string list"
type_synonym json = string

text \<open>The \<open>callbacks\<close> argument of \<open>queue\<close>: each slot is optional, the flag says whether it is set.\<close>

record callbacks =
  cb_onCompleted :: bool
  cb_onCancelled :: bool
  cb_onUpdate :: bool
  cb_onError :: bool

record ComfyJob =
  parent :: "client_ref option"
  uid :: "string option"
  status :: ComfyJob_Status
  onCompleted :: bool
  onCancelled :: bool
  onUpdate :: bool
  onError :: bool
  workflow :: workflow
  errors :: "errors option"

text \<open>
  A value of the \<open>#jobs\<close> map, \<open>{ job, ...cb }\<close>. The four handlers are the closures that
  \<open>queue\<close> builds; they are determined by the job they close over (\<open>this\<close>, the same object
  as \<open>job\<close>) and by the \<open>callbacks\<close> argument of that call.
\<close>

record entry =
  job :: job_ref
  handlers :: callbacks

text \<open>
  \<open>#jobs\<close> is a JavaScript \<open>Map\<close>: insertion order is kept, \<open>set\<close> on a present key replaces
  the value in place, \<open>delete\<close> removes the key. A key is \<open>job.uid!\<close>, which is a string or
  \<open>undefined\<close> at run time.
\<close>

record ComfyClient =
  jobs :: "(string option \<times> entry) list"

text \<open>An invocation of a user callback, with its arguments.\<close>

datatype call =
    OnCompleted job_ref
  | OnCancelled job_ref
  | OnUpdate job_ref nat
  | OnError job_ref "errors option"

text \<open>A request sent to the backend by the client of the first argument.\<close>

datatype request =
    POST_prompt client_ref workflow
  | POST_queue_delete client_ref "string option list"
  | POST_queue_clear client_ref

record world =
  heap :: "ComfyJob list"
  clients :: "ComfyClient list"
  calls :: "call list"
  requests :: "request list"

text \<open>
  The \<open>Response\<close> that \<open>fetch\<close> resolves to; \<open>json\<close> is \<open>None\<close> when decoding the body
  rejects. The outcome of a \<open>fetch\<close> is a \<open>response option\<close>, \<open>None\<close> when the promise rejects.
\<close>

datatype 'a response =
  Response (ok: bool) (statusText: string) (status_code: nat) (json: "'a option")

text \<open>
  The body of a successful \<open>POST /prompt\<close> as \<open>queue\<close> reads it: \<open>tmp.prompt_id\<close>,
  \<open>tmp.node_errors\<close> (an object, here its key/value pairs) and \<open>tmp.errors\<close>
  (\<open>None\<close> when the body has no such field).
\<close>

record prompt_reply =
  prompt_id :: string
  node_errors :: "(string \<times> string) list"
  reply_errors :: "errors option"

datatype error =
    AlreadyQueued
  | RequestFailed string nat
  | FetchRejected
  | BodyRejected
  | TypeError
  | SyntaxError

text \<open>
  A frame of the socket after \<open>JSON.parse\<close>: \<open>Malformed\<close> when parsing throws, otherwise
  discriminated by \<open>data.type\<close>; \<open>Executing\<close> carries \<open>data.data.prompt_id\<close> and
  \<open>data.data.node\<close> (\<open>None\<close> for \<open>null\<close>).
\<close>

datatype message =
    Malformed
  | Status_update
  | Executing string "nat option"
  | Crystools_monitor
  | Other_type string

section \<open>Store access\<close>

definition the_job :: "world \<Rightarrow> job_ref \<Rightarrow> ComfyJob" where
  "the_job w j = heap w ! j"

definition upd_job :: "job_ref \<Rightarrow> (ComfyJob \<Rightarrow> ComfyJob) \<Rightarrow> world \<Rightarrow> world" where
  "upd_job j f w = w\<lparr>heap := (heap w)[j := f (heap w ! j)]\<rparr>"

definition the_jobs :: "world \<Rightarrow> client_ref \<Rightarrow> (string option \<times> entry) list" where
  "the_jobs w c = jobs (clients w ! c)"

definition upd_jobs ::
  "client_ref \<Rightarrow> ((string option \<times> entry) list \<Rightarrow> (string option \<times> entry) list) \<Rightarrow> world \<Rightarrow> world" where
  "upd_jobs c f w = w\<lparr>clients := (clients w)[c := (clients w ! c)\<lparr>jobs := f (jobs (clients w ! c))\<rparr>]\<rparr>"

definition invoke :: "call \<Rightarrow> world \<Rightarrow> world" where
  "invoke x w = w\<lparr>calls := calls w @ [x]\<rparr>"

definition send :: "request \<Rightarrow> world \<Rightarrow> world" where
  "send r w = w\<lparr>requests := requests w @ [r]\<rparr>"

section \<open>ComfyJob: constructor and clone\<close>

definition new_ComfyJob :: "workflow \<Rightarrow> world \<Rightarrow> job_ref \<times> world" where
  "new_ComfyJob wk w =
     (length (heap w),
      w\<lparr>heap := heap w @
         [\<lparr>parent = None, uid = None, status = Building,
           onCompleted = False, onCancelled = False, onUpdate = False, onError = False,
           workflow = wk, errors = None\<rparr>]\<rparr>)"

definition clone :: "job_ref \<Rightarrow> world \<Rightarrow> job_ref \<times> world" where
  "clone this w =
     (case new_ComfyJob ''{}'' w of
        (tmp, w1) \<Rightarrow> (tmp, upd_job tmp (\<lambda>r. r\<lparr>workflow := workflow (the_job w1 this)\<rparr>) w1))"

definition new_ComfyClient :: "world \<Rightarrow> client_ref \<times> world" where
  "new_ComfyClient w = (length (clients w), w\<lparr>clients := clients w @ [\<lparr>jobs = []\<rparr>]\<rparr>)"

section \<open>ComfyClient: the registry\<close>

definition registerExecutingCallback :: "client_ref \<Rightarrow> job_ref \<Rightarrow> callbacks \<Rightarrow> world \<Rightarrow> world" where
  "registerExecutingCallback c j cb w =
     upd_jobs c (AList.update (uid (the_job w j)) \<lparr>job = j, handlers = cb\<rparr>) w"

definition unregisterExecutingCallback :: "client_ref \<Rightarrow> job_ref \<Rightarrow> world \<Rightarrow> world" where
  "unregisterExecutingCallback c j w = upd_jobs c (AList.delete (uid (the_job w j))) w"

section \<open>The handlers that queue registers\<close>

text \<open>
  Each handler writes \<open>this.#status\<close> first. \<open>this.#parent!\<close> is dereferenced next in two
  of them: on an unset parent that is a \<open>TypeError\<close>, after the status was written.
\<close>

definition entry_onCompleted :: "entry \<Rightarrow> world \<Rightarrow> (error + unit) \<times> world" where
  "entry_onCompleted t w =
     (let w1 = upd_job (job t) (\<lambda>r. r\<lparr>status := Completed\<rparr>) w in
      case parent (the_job w1 (job t)) of
        None \<Rightarrow> (Inl TypeError, w1)
      | Some p \<Rightarrow>
          (let w2 = unregisterExecutingCallback p (job t) w1 in
           (Inr (), if cb_onCompleted (handlers t) then invoke (OnCompleted (job t)) w2 else w2)))"

definition entry_onUpdate :: "entry \<Rightarrow> nat \<Rightarrow> world \<Rightarrow> (error + unit) \<times> world" where
  "entry_onUpdate t node w =
     (let w1 = upd_job (job t) (\<lambda>r. r\<lparr>status := Running\<rparr>) w in
      (Inr (), if cb_onUpdate (handlers t) then invoke (OnUpdate (job t) node) w1 else w1))"

definition entry_onError :: "entry \<Rightarrow> errors option \<Rightarrow> world \<Rightarrow> (error + unit) \<times> world" where
  "entry_onError t errs w =
     (let w1 = upd_job (job t) (\<lambda>r. r\<lparr>status := Failed\<rparr>) w in
      case parent (the_job w1 (job t)) of
        None \<Rightarrow> (Inl TypeError, w1)
      | Some p \<Rightarrow>
          (let w2 = unregisterExecutingCallback p (job t) w1 in
           (Inr (), if cb_onError (handlers t) then invoke (OnError (job t) errs) w2 else w2)))"

definition entry_onCancelled :: "entry \<Rightarrow> world \<Rightarrow> (error + unit) \<times> world" where
  "entry_onCancelled t w =
     (let w1 = upd_job (job t) (\<lambda>r. r\<lparr>status := Cancelled\<rparr>) w in
      (Inr (), if cb_onCancelled (handlers t) then invoke (OnCancelled (job t)) w1 else w1))"

section \<open>ComfyClient: endpoints\<close>

definition post_prompt ::
  "client_ref \<Rightarrow> workflow \<Rightarrow> prompt_reply response option \<Rightarrow> world \<Rightarrow> (error + prompt_reply) \<times> world" where
  "post_prompt c wk fetch w =
     (let w1 = send (POST_prompt c wk) w in
      case fetch of
        None \<Rightarrow> (Inl FetchRejected, w1)
      | Some tmp \<Rightarrow>
          if ok tmp then
            (case json tmp of None \<Rightarrow> (Inl BodyRejected, w1) | Some b \<Rightarrow> (Inr b, w1))
          else (Inl (RequestFailed (statusText tmp) (status_code tmp)), w1))"

text \<open>
  \<open>for (const [key, value] of this.#jobs) if (...) await value.onError(value.job, [])\<close>.
  The iterator of a \<open>Map\<close> is live: an entry deleted before the iterator reaches it is not
  visited. The handlers only delete, so the loop walks the keys present at its start and
  skips those that are gone by the time their turn comes. A handler that throws ends the
  loop.
\<close>

fun force_errors ::
  "client_ref \<Rightarrow> (string option \<Rightarrow> bool) \<Rightarrow> string option list \<Rightarrow> world \<Rightarrow> (error + unit) \<times> world" where
  "force_errors c sel [] w = (Inr (), w)"
| "force_errors c sel (key # keys) w =
     (case map_of (the_jobs w c) key of
        None \<Rightarrow> force_errors c sel keys w
      | Some v \<Rightarrow>
          if sel key then
            (case entry_onError v (Some []) w of
               (Inl e, w') \<Rightarrow> (Inl e, w')
             | (Inr _, w') \<Rightarrow> force_errors c sel keys w')
          else force_errors c sel keys w)"

definition clear_queue :: "client_ref \<Rightarrow> json response option \<Rightarrow> world \<Rightarrow> (error + json) \<times> world" where
  "clear_queue c fetch w =
     (let w1 = send (POST_queue_clear c) w in
      case fetch of
        None \<Rightarrow> (Inl FetchRejected, w1)
      | Some tmp \<Rightarrow>
          if ok tmp then
            (case force_errors c (\<lambda>key. True) (map fst (the_jobs w1 c)) w1 of
               (Inl e, w2) \<Rightarrow> (Inl e, w2)
             | (Inr _, w2) \<Rightarrow>
                 (case json tmp of None \<Rightarrow> (Inl BodyRejected, w2) | Some b \<Rightarrow> (Inr b, w2)))
          else (Inl (RequestFailed (statusText tmp) (status_code tmp)), w1))"

definition delete_queue_entries ::
  "client_ref \<Rightarrow> string option list \<Rightarrow> json response option \<Rightarrow> world \<Rightarrow> (error + json) \<times> world" where
  "delete_queue_entries c entries fetch w =
     (let w1 = send (POST_queue_delete c entries) w in
      case fetch of
        None \<Rightarrow> (Inl FetchRejected, w1)
      | Some tmp \<Rightarrow>
          if ok tmp then
            (case force_errors c (\<lambda>key. key \<in> set entries) (map fst (the_jobs w1 c)) w1 of
               (Inl e, w2) \<Rightarrow> (Inl e, w2)
             | (Inr _, w2) \<Rightarrow>
                 (case json tmp of None \<Rightarrow> (Inl BodyRejected, w2) | Some b \<Rightarrow> (Inr b, w2)))
          else (Inl (RequestFailed (statusText tmp) (status_code tmp)), w1))"

text \<open>The listener of the socket's \<open>message\<close> event, on client \<open>c\<close>.\<close>

definition on_message :: "client_ref \<Rightarrow> message \<Rightarrow> world \<Rightarrow> (error + unit) \<times> world" where
  "on_message c data w =
     (case data of
        Malformed \<Rightarrow> (Inl SyntaxError, w)
      | Status_update \<Rightarrow> (Inr (), w)
      | Executing pid node \<Rightarrow>
          (case map_of (the_jobs w c) (Some pid) of
             None \<Rightarrow> (Inr (), w)
           | Some t \<Rightarrow> if node = None then entry_onCompleted t w else (Inr (), w))
      | Crystools_monitor \<Rightarrow> (Inr (), w)
      | Other_type s \<Rightarrow> (Inr (), w))"

section \<open>ComfyJob: queue, completion, cancel\<close>

definition queue ::
  "job_ref \<Rightarrow> client_ref \<Rightarrow> callbacks \<Rightarrow> prompt_reply response option \<Rightarrow> world \<Rightarrow> (error + unit) \<times> world" where
  "queue this p cbs fetch w =
     (if status (the_job w this) \<noteq> Building then (Inl AlreadyQueued, w)
      else
        let w1 = upd_job this (\<lambda>r. r\<lparr>parent := Some p, onCompleted := cb_onCompleted cbs,
                                     onUpdate := cb_onUpdate cbs, onError := cb_onError cbs\<rparr>) w in
        case post_prompt p (workflow (the_job w1 this)) fetch w1 of
          (Inl e, w2) \<Rightarrow> (Inl e, w2)
        | (Inr tmp, w2) \<Rightarrow>
            (let w3 = upd_job this (\<lambda>r. r\<lparr>status := Queued\<rparr>) w2;
                 w4 = upd_job this (\<lambda>r. r\<lparr>uid := Some (prompt_id tmp)\<rparr>) w3;
                 w5 = (if length (map fst (node_errors tmp)) \<noteq> 0 then
                         (let w' = upd_job this (\<lambda>r. r\<lparr>status := Failed\<rparr>) w4 in
                          if onError (the_job w' this)
                          then invoke (OnError this (reply_errors tmp)) w' else w')
                       else w4)
             in (Inr (), registerExecutingCallback p this cbs w5)))"

text \<open>
  \<open>completion\<close>: \<open>while (true) { if (this.#status === 'running') sleep(0) else break }\<close>.
  The promise of \<open>sleep(0)\<close> is not awaited, so no other code runs between two tests
  and the status read is always the same: the loop either leaves at once or never.
  Not returning is the value \<open>None\<close>.
\<close>

partial_function (option) completion :: "job_ref \<Rightarrow> world \<Rightarrow> world option" where
  "completion this w =
     (if status (the_job w this) = Running then completion this w else Some w)"

definition cancel :: "job_ref \<Rightarrow> json response option \<Rightarrow> world \<Rightarrow> (error + unit) \<times> world" where
  "cancel this fetch w =
     (if status (the_job w this) \<in> set [Cancelled, Failed, Completed, Building] then (Inr (), w)
      else
        case parent (the_job w this) of
          None \<Rightarrow> (Inl TypeError, w)
        | Some p \<Rightarrow>
            (case delete_queue_entries p [uid (the_job w this)] fetch w of
               (Inl e, w') \<Rightarrow> (Inl e, w')
             | (Inr tmp, w') \<Rightarrow> (Inr (), w')))"

section \<open>Runs of the system\<close>

text \<open>
  One step is one call from outside: the user constructs an object or calls a method, or
  the socket of a client delivers a frame. A method is called on an object that exists,
  so a step that names a reference never handed out is no step and changes nothing.
  \<open>exec\<close> keeps the state a call leaves behind, whether it returned or threw.
  \<open>completion\<close> writes nothing and is not a step.
\<close>

datatype op =
    New_job workflow
  | New_client
  | Clone job_ref
  | Queue job_ref client_ref callbacks "prompt_reply response option"
  | Cancel job_ref "json response option"
  | Message client_ref message
  | Clear_queue client_ref "json response option"
  | Delete_queue_entries client_ref "string option list" "json response option"

fun exec :: "op \<Rightarrow> world \<Rightarrow> world" where
  "exec (New_job wk) w = snd (new_ComfyJob wk w)"
| "exec New_client w = snd (new_ComfyClient w)"
| "exec (Clone j) w = (if j < length (heap w) then snd (clone j w) else w)"
| "exec (Queue j c cbs fetch) w =
     (if j < length (heap w) \<and> c < length (clients w) then snd (queue j c cbs fetch w) else w)"
| "exec (Cancel j fetch) w = (if j < length (heap w) then snd (cancel j fetch w) else w)"
| "exec (Message c data) w = (if c < length (clients w) then snd (on_message c data w) else w)"
| "exec (Clear_queue c fetch) w = (if c < length (clients w) then snd (clear_queue c fetch w) else w)"
| "exec (Delete_queue_entries c entries fetch) w =
     (if c < length (clients w) then snd (delete_queue_entries c entries fetch w) else w)"

definition run :: "op list \<Rightarrow> world \<Rightarrow> world" where
  "run ops w = fold exec ops w"

text \<open>The states after each step of a run, the initial one first.\<close>

fun trace :: "op list \<Rightarrow> world \<Rightarrow> world list" where
  "trace [] w = [w]"
| "trace (x # xs) w = w # trace xs (exec x w)"

definition statuses :: "job_ref \<Rightarrow> world list \<Rightarrow> ComfyJob_Status list" where
  "statuses j ws = map (\<lambda>w. status (the_job w j)) ws"

fun is_queue_of :: "job_ref \<Rightarrow> op \<Rightarrow> bool" where
  "is_queue_of k (Queue j c cbs fetch) = (j = k)"
| "is_queue_of k _ = False"

subsection \<open>Invariants of the store\<close>

text \<open>Every entry of every registry holds a reference to a job of the store.\<close>

definition entries_allocated :: "world \<Rightarrow> bool" where
  "entries_allocated w =
     (\<forall>cl \<in> set (clients w). \<forall>kv \<in> set (jobs cl). job (snd kv) < length (heap w))"

text \<open>The \<open>#parent\<close> of every job, once set, is a client of the store.\<close>

definition parents_allocated :: "world \<Rightarrow> bool" where
  "parents_allocated w =
     (\<forall>r \<in> set (heap w). case parent r of None \<Rightarrow> True | Some p \<Rightarrow> p < length (clients w))"

definition wellformed :: "world \<Rightarrow> bool" where
  "wellformed w = (entries_allocated w \<and> parents_allocated w)"

text \<open>No entry of any registry holds job \<open>k\<close>.\<close>

definition unreferenced :: "job_ref \<Rightarrow> world \<Rightarrow> bool" where
  "unreferenced k w = (\<forall>cl \<in> set (clients w). \<forall>kv \<in> set (jobs cl). job (snd kv) \<noteq> k)"

text \<open>Job \<open>j\<close> exists and has left \<open>building\<close>.\<close>

definition submitted :: "job_ref \<Rightarrow> world \<Rightarrow> bool" where
  "submitted j w = (j < length (heap w) \<and> status (the_job w j) \<noteq> Building)"

text \<open>
  Job \<open>k\<close> exists, its fields are those of \<open>J\<close>, no registry holds it, and the parents
  of all jobs exist.
\<close>

definition detached :: "job_ref \<Rightarrow> ComfyJob \<Rightarrow> world \<Rightarrow> bool" where
  "detached k J w =
     (k < length (heap w) \<and> the_job w k = J \<and> unreferenced k w \<and> parents_allocated w)"

text \<open>What \<open>clone\<close> builds from a job with payload \<open>wk\<close>.\<close>

definition building_job :: "workflow \<Rightarrow> ComfyJob" where
  "building_job wk =
     \<lparr>parent = None, uid = None, status = Building,
      onCompleted = False, onCancelled = False, onUpdate = False, onError = False,
      workflow = wk, errors = None\<rparr>"

subsection \<open>Concrete scenarios\<close>

definition empty_world :: world where
  "empty_world = \<lparr>heap = [], clients = [], calls = [], requests = []\<rparr>"

definition all_callbacks :: callbacks where
  "all_callbacks = \<lparr>cb_onCompleted = True, cb_onCancelled = True, cb_onUpdate = True, cb_onError = True\<rparr>"

text \<open>One client (reference 0) and one job (reference 0), freshly constructed.\<close>

definition fresh_world :: world where
  "fresh_world = run [New_client, New_job ''{3: KSampler}''] empty_world"

text \<open>\<open>200 OK\<close> with identity \<open>X\<close> and an empty \<open>node_errors\<close>.\<close>

definition accepted :: "prompt_reply response option" where
  "accepted =
     Some (Response True ''OK'' 200
       (Some \<lparr>prompt_id = ''X'', node_errors = [], reply_errors = None\<rparr>))"

text \<open>\<open>200 OK\<close> with identity \<open>X\<close> and an error reported for node 5.\<close>

definition accepted_with_node_errors :: "prompt_reply response option" where
  "accepted_with_node_errors =
     Some (Response True ''OK'' 200
       (Some \<lparr>prompt_id = ''X'', node_errors = [(''5'', ''value_not_in_list'')],
              reply_errors = None\<rparr>))"

text \<open>\<open>200 OK\<close> with identity \<open>Y\<close> and an empty \<open>node_errors\<close>.\<close>

definition accepted_as_Y :: "prompt_reply response option" where
  "accepted_as_Y =
     Some (Response True ''OK'' 200
       (Some \<lparr>prompt_id = ''Y'', node_errors = [], reply_errors = None\<rparr>))"

definition refused :: "prompt_reply response option" where
  "refused = Some (Response False ''Bad Request'' 400 None)"

definition done_ok :: "json response option" where
  "done_ok = Some (Response True ''OK'' 200 (Some ''{}''))"

text \<open>Job 0 submitted to client 0 and accepted: queued under \<open>X\<close>.\<close>

definition queued_world :: world where
  "queued_world = exec (Queue 0 0 all_callbacks accepted) fresh_world"

text \<open>Job 0 submitted to client 0 and accepted with node errors.\<close>

definition rejected_world :: world where
  "rejected_world = exec (Queue 0 0 all_callbacks accepted_with_node_errors) fresh_world"

text \<open>Job 0 queued and then completed by the stream.\<close>

definition completed_world :: world where
  "completed_world = exec (Message 0 (Executing ''X'' None)) queued_world"

section \<open>Basic facts\<close>

lemmas store_defs = the_job_def upd_job_def the_jobs_def upd_jobs_def invoke_def send_def

lemma completion_not_running:
  "status (the_job w this) \<noteq> Running \<Longrightarrow> completion this w = Some w"
  by (subst completion.simps) simp

text \<open>On a running job the loop of \<open>completion\<close> has no exit.\<close>

lemma completion_running:
  assumes "status (the_job w this) = Running"
  shows "completion this w = None"
proof (cases "completion this w")
  case None
  then show ?thesis .
next
  case (Some y)
  have "completion this w = Some y \<Longrightarrow> status (the_job w this) \<noteq> Running"
    by (rule completion.raw_induct[where P = "\<lambda>this w y. status (the_job w this) \<noteq> Running"])
       (auto split: if_splits)
  with Some assms show ?thesis by simp
qed

text \<open>
  The listener calls a handler only for \<open>node === null\<close>: a frame with a step indicator
  leaves every job, every registry and the call log as they were, whatever the state.
\<close>

lemma executing_with_node_ignored:
  "on_message c (Executing pid (Some node)) w = (Inr (), w)"
  by (simp add: on_message_def split: option.splits)

subsection \<open>Frames of the store operations\<close>

text \<open>What each primitive leaves alone, as rewrite rules.\<close>

lemma heap_upd_jobs [simp]: "heap (upd_jobs c f w) = heap w"
  by (simp add: upd_jobs_def)

lemma heap_invoke [simp]: "heap (invoke x w) = heap w"
  by (simp add: invoke_def)

lemma heap_send [simp]: "heap (send r w) = heap w"
  by (simp add: send_def)

lemma heap_unregister [simp]: "heap (unregisterExecutingCallback c j w) = heap w"
  by (simp add: unregisterExecutingCallback_def)

lemma heap_register [simp]: "heap (registerExecutingCallback c j cb w) = heap w"
  by (simp add: registerExecutingCallback_def)

lemma the_job_prims [simp]:
  "the_job (upd_jobs c f w) j = the_job w j"
  "the_job (invoke x w) j = the_job w j"
  "the_job (send r w) j = the_job w j"
  "the_job (unregisterExecutingCallback c i w) j = the_job w j"
  "the_job (registerExecutingCallback c i cb w) j = the_job w j"
  by (simp_all add: the_job_def)

lemma heap_upd_job [simp]: "length (heap (upd_job i f w)) = length (heap w)"
  by (simp add: upd_job_def)

lemma the_job_upd_job:
  "the_job (upd_job i f w) j = (if i = j \<and> j < length (heap w) then f (the_job w j) else the_job w j)"
  by (cases "i = j") (auto simp: store_defs list_update_beyond)

subsection \<open>A submitted job never returns to building\<close>

lemma submitted_prims [simp]:
  "submitted j (upd_jobs c f w) = submitted j w"
  "submitted j (invoke x w) = submitted j w"
  "submitted j (send r w) = submitted j w"
  "submitted j (unregisterExecutingCallback c i w) = submitted j w"
  "submitted j (registerExecutingCallback c i cb w) = submitted j w"
  by (simp_all add: submitted_def the_job_def)

lemma submitted_upd_job_other:
  "i \<noteq> j \<Longrightarrow> submitted j (upd_job i f w) = submitted j w"
  by (simp add: submitted_def store_defs)

lemma submitted_upd_job:
  "submitted j w \<Longrightarrow> (\<And>r. status (f r) \<noteq> Building) \<Longrightarrow> submitted j (upd_job i f w)"
  by (cases "i = j") (simp_all add: submitted_def store_defs)

lemma submitted_onError:
  "submitted j w \<Longrightarrow> submitted j (snd (entry_onError t errs w))"
  by (simp add: entry_onError_def Let_def submitted_upd_job split: option.splits)

lemma submitted_onCompleted:
  "submitted j w \<Longrightarrow> submitted j (snd (entry_onCompleted t w))"
  by (simp add: entry_onCompleted_def Let_def submitted_upd_job split: option.splits)

lemma submitted_force_errors:
  "submitted j w \<Longrightarrow> submitted j (snd (force_errors c sel keys w))"
proof (induction keys arbitrary: w)
  case Nil
  then show ?case by simp
next
  case (Cons key keys)
  show ?case
  proof (cases "map_of (the_jobs w c) key")
    case None
    with Cons show ?thesis by simp
  next
    case (Some v)
    show ?thesis
    proof (cases "sel key")
      case False
      with Some Cons show ?thesis by simp
    next
      case True
      obtain r w' where step: "entry_onError v (Some []) w = (r, w')"
        by (cases "entry_onError v (Some []) w")
      from submitted_onError[OF Cons.prems, of v "Some []"] step have "submitted j w'"
        by simp
      with Cons.IH[of w'] Some True step show ?thesis
        by (cases r) simp_all
    qed
  qed
qed

lemma submitted_clear_queue:
  assumes "submitted j w"
  shows "submitted j (snd (clear_queue c fetch w))"
proof -
  let ?w1 = "send (POST_queue_clear c) w"
  obtain r w2 where fe: "force_errors c (\<lambda>key. True) (map fst (the_jobs ?w1 c)) ?w1 = (r, w2)"
    by (cases "force_errors c (\<lambda>key. True) (map fst (the_jobs ?w1 c)) ?w1")
  from assms have "submitted j ?w1" by simp
  from submitted_force_errors[OF this, of c "\<lambda>key. True" "map fst (the_jobs ?w1 c)"] fe
  have "submitted j w2" by simp
  with assms fe show ?thesis
    by (simp add: clear_queue_def Let_def split: option.splits sum.splits)
qed

lemma submitted_delete_queue_entries:
  assumes "submitted j w"
  shows "submitted j (snd (delete_queue_entries c entries fetch w))"
proof -
  let ?w1 = "send (POST_queue_delete c entries) w"
  obtain r w2 where fe: "force_errors c (\<lambda>key. key \<in> set entries) (map fst (the_jobs ?w1 c)) ?w1 = (r, w2)"
    by (cases "force_errors c (\<lambda>key. key \<in> set entries) (map fst (the_jobs ?w1 c)) ?w1")
  from assms have "submitted j ?w1" by simp
  from submitted_force_errors[OF this, of c "\<lambda>key. key \<in> set entries" "map fst (the_jobs ?w1 c)"] fe
  have "submitted j w2" by simp
  with assms fe show ?thesis
    by (simp add: delete_queue_entries_def Let_def split: option.splits sum.splits)
qed

lemma submitted_cancel:
  assumes "submitted j w"
  shows "submitted j (snd (cancel i fetch w))"
proof (cases "parent (the_job w i)")
  case None
  with assms show ?thesis by (simp add: cancel_def)
next
  case (Some p)
  obtain r w' where d: "delete_queue_entries p [uid (the_job w i)] fetch w = (r, w')"
    by (cases "delete_queue_entries p [uid (the_job w i)] fetch w")
  from submitted_delete_queue_entries[OF assms, of p "[uid (the_job w i)]" fetch] d
  have "submitted j w'" by simp
  with assms Some d show ?thesis
    by (simp add: cancel_def split: sum.splits)
qed

lemma submitted_on_message:
  "submitted j w \<Longrightarrow> submitted j (snd (on_message c data w))"
  by (simp add: on_message_def submitted_onCompleted split: message.splits option.splits)

lemma submitted_new_job:
  "submitted j w \<Longrightarrow> submitted j (snd (new_ComfyJob wk w))"
  by (simp add: submitted_def new_ComfyJob_def the_job_def nth_append)

lemma submitted_clone:
  "submitted j w \<Longrightarrow> submitted j (snd (clone i w))"
  by (simp add: submitted_def clone_def new_ComfyJob_def store_defs nth_append)

lemma submitted_new_client:
  "submitted j w \<Longrightarrow> submitted j (snd (new_ComfyClient w))"
  by (simp add: new_ComfyClient_def submitted_def the_job_def)

lemma queue_refuses_submitted:
  "submitted j w \<Longrightarrow> queue j p cbs fetch w = (Inl AlreadyQueued, w)"
  by (simp add: queue_def submitted_def)

lemma submitted_queue:
  assumes "submitted j w"
  shows "submitted j (snd (queue i p cbs fetch w))"
proof (cases "i = j")
  case True
  with assms show ?thesis by (simp add: queue_refuses_submitted)
next
  case False
  with assms show ?thesis
    by (simp add: queue_def Let_def post_prompt_def submitted_upd_job_other
             split: option.splits)
qed

lemma submitted_exec:
  "submitted j w \<Longrightarrow> submitted j (exec x w)"
  by (cases x)
     (simp_all add: submitted_new_job submitted_new_client submitted_clone submitted_queue
        submitted_cancel submitted_on_message submitted_clear_queue submitted_delete_queue_entries)

lemma submitted_run:
  "submitted j w \<Longrightarrow> submitted j (run ops w)"
  unfolding run_def by (induction ops arbitrary: w) (simp_all add: submitted_exec)

lemma queue_returns_submitted:
  assumes "this < length (heap w)" and "fst (queue this p cbs fetch w) = Inr ()"
  shows "submitted this (snd (queue this p cbs fetch w))"
proof -
  from assms(2) have b: "status (the_job w this) = Building"
    by (cases "status (the_job w this) = Building") (simp_all add: queue_def)
  from assms(2) b obtain tmp where f: "fetch = Some tmp"
    by (cases fetch) (simp_all add: queue_def post_prompt_def Let_def)
  from assms(2) b f have k: "ok tmp"
    by (cases "ok tmp") (simp_all add: queue_def post_prompt_def Let_def)
  from assms(2) b f k obtain body where j: "json tmp = Some body"
    by (cases "json tmp") (simp_all add: queue_def post_prompt_def Let_def)
  show ?thesis
    using assms(1) b f k j
    by (simp add: queue_def post_prompt_def Let_def submitted_def the_job_upd_job)
qed

subsection \<open>Registries, calls and requests under the primitives\<close>

lemma the_jobs_prims [simp]:
  "the_jobs (upd_job i f w) c = the_jobs w c"
  "the_jobs (invoke x w) c = the_jobs w c"
  "the_jobs (send r w) c = the_jobs w c"
  by (simp_all add: store_defs)

lemma clients_prims [simp]:
  "clients (upd_job i f w) = clients w"
  "clients (invoke x w) = clients w"
  "clients (send r w) = clients w"
  "length (clients (upd_jobs c g w)) = length (clients w)"
  "length (clients (unregisterExecutingCallback c i w)) = length (clients w)"
  "length (clients (registerExecutingCallback c i cb w)) = length (clients w)"
  by (simp_all add: store_defs unregisterExecutingCallback_def registerExecutingCallback_def)

lemma the_jobs_upd_jobs:
  "the_jobs (upd_jobs c' g w) c =
     (if c = c' \<and> c < length (clients w) then g (the_jobs w c) else the_jobs w c)"
  by (cases "c = c'") (auto simp: store_defs list_update_beyond)

lemma calls_prims [simp]:
  "calls (upd_job i f w) = calls w"
  "calls (upd_jobs c g w) = calls w"
  "calls (send r w) = calls w"
  "calls (invoke x w) = calls w @ [x]"
  "calls (unregisterExecutingCallback c i w) = calls w"
  "calls (registerExecutingCallback c i cb w) = calls w"
  by (simp_all add: store_defs unregisterExecutingCallback_def registerExecutingCallback_def)

lemma requests_prims [simp]:
  "requests (upd_job i f w) = requests w"
  "requests (upd_jobs c g w) = requests w"
  "requests (send r w) = requests w @ [r]"
  "requests (invoke x w) = requests w"
  "requests (unregisterExecutingCallback c i w) = requests w"
  "requests (registerExecutingCallback c i cb w) = requests w"
  by (simp_all add: store_defs unregisterExecutingCallback_def registerExecutingCallback_def)

subsection \<open>Forcing the error transition on one identity\<close>

text \<open>The error handler on the entry of a registered job.\<close>

lemma entry_onError_registered:
  assumes "this < length (heap w)" and "p < length (clients w)"
    and "parent (the_job w this) = Some p" and "uid (the_job w this) = u"
    and "job t = this"
  shows "fst (entry_onError t errs w) = Inr ()"
    and "status (the_job (snd (entry_onError t errs w)) this) = Failed"
    and "map_of (the_jobs (snd (entry_onError t errs w)) p) u = None"
    and "calls (snd (entry_onError t errs w))
           = calls w @ (if cb_onError (handlers t) then [OnError this errs] else [])"
    and "requests (snd (entry_onError t errs w)) = requests w"
  using assms
  by (simp_all add: entry_onError_def Let_def the_job_upd_job unregisterExecutingCallback_def
        the_jobs_upd_jobs AList.delete_conv')

lemma force_errors_absent:
  "map_of (the_jobs w c) key = None \<Longrightarrow> force_errors c (\<lambda>k. k = key) keys w = (Inr (), w)"
  by (induction keys) (auto split: option.splits)

lemma force_errors_single:
  assumes "map_of (the_jobs w c) key = Some t"
    and "fst (entry_onError t (Some []) w) = Inr ()"
    and "map_of (the_jobs (snd (entry_onError t (Some []) w)) c) key = None"
    and "key \<in> set keys"
  shows "force_errors c (\<lambda>k. k = key) keys w = (Inr (), snd (entry_onError t (Some []) w))"
  using assms(4)
proof (induction keys)
  case Nil
  then show ?case by simp
next
  case (Cons a keys)
  show ?case
  proof (cases "a = key")
    case True
    obtain w' where e: "entry_onError t (Some []) w = (Inr (), w')"
      using assms(2) by (cases "entry_onError t (Some []) w") auto
    with assms(3) have "force_errors c (\<lambda>k. k = key) keys w' = (Inr (), w')"
      by (simp add: force_errors_absent)
    with True assms(1) e show ?thesis by simp
  next
    case False
    with Cons show ?thesis by (simp split: option.splits)
  qed
qed

lemma requests_onError [simp]:
  "requests (snd (entry_onError t errs w)) = requests w"
  by (simp add: entry_onError_def Let_def split: option.splits)

lemma requests_force_errors [simp]:
  "requests (snd (force_errors c sel keys w)) = requests w"
proof (induction keys arbitrary: w)
  case Nil
  then show ?case by simp
next
  case (Cons key keys)
  show ?case
  proof (cases "map_of (the_jobs w c) key")
    case None
    with Cons show ?thesis by simp
  next
    case (Some v)
    obtain r w' where e: "entry_onError v (Some []) w = (r, w')"
      by (cases "entry_onError v (Some []) w")
    have "requests w' = requests w"
      using requests_onError[of v "Some []" w] e by simp
    with Cons[of w'] Cons[of w] Some e show ?thesis
      by (cases r) simp_all
  qed
qed

lemma requests_force_errors_result:
  "force_errors c sel keys w = (r, w') \<Longrightarrow> requests w' = requests w"
  using requests_force_errors[of c sel keys w] by simp

lemma cancel_sends_delete:
  assumes "status (the_job w this) \<in> {Queued, Running}" and "parent (the_job w this) = Some p"
  shows "requests (snd (cancel this fetch w)) = requests w @ [POST_queue_delete p [uid (the_job w this)]]"
proof -
  let ?e = "[uid (the_job w this)]"
  let ?w1 = "send (POST_queue_delete p ?e) w"
  obtain r w2 where fe: "force_errors p (\<lambda>key. key \<in> set ?e) (map fst (the_jobs ?w1 p)) ?w1 = (r, w2)"
    by (cases "force_errors p (\<lambda>key. key \<in> set ?e) (map fst (the_jobs ?w1 p)) ?w1")
  have "requests w2 = requests ?w1"
    using fe by (rule requests_force_errors_result)
  then have "requests (snd (delete_queue_entries p ?e fetch w)) = requests w @ [POST_queue_delete p ?e]"
    using fe by (simp add: delete_queue_entries_def Let_def split: option.splits sum.splits)
  with assms show ?thesis
    by (auto simp: cancel_def split: sum.splits prod.splits)
qed

subsection \<open>A job that no registry holds\<close>

lemma set_alist_update:
  "set (AList.update k v al) \<subseteq> insert (k, v) (set al)"
  by (induction al) auto

lemma set_alist_delete:
  "set (AList.delete k al) \<subseteq> set al"
  by (auto simp: AList.delete_eq)

lemma unreferenced_prims [simp]:
  "unreferenced k (upd_job i f w) = unreferenced k w"
  "unreferenced k (invoke x w) = unreferenced k w"
  "unreferenced k (send r w) = unreferenced k w"
  by (simp_all add: unreferenced_def)

lemma unreferenced_upd_jobs:
  assumes "unreferenced k w"
    and "\<And>kv. kv \<in> set (g (the_jobs w c)) \<Longrightarrow> kv \<in> set (the_jobs w c) \<or> job (snd kv) \<noteq> k"
  shows "unreferenced k (upd_jobs c g w)"
proof (cases "c < length (clients w)")
  case False
  with assms(1) show ?thesis
    by (simp add: unreferenced_def upd_jobs_def list_update_beyond)
next
  case True
  then have mem: "clients w ! c \<in> set (clients w)" by simp
  show ?thesis
    unfolding unreferenced_def
  proof (intro ballI)
    fix cl kv
    assume cl: "cl \<in> set (clients (upd_jobs c g w))" and kv: "kv \<in> set (jobs cl)"
    from cl have "cl \<in> insert ((clients w ! c)\<lparr>jobs := g (jobs (clients w ! c))\<rparr>) (set (clients w))"
      using set_update_subset_insert[of "clients w" c] by (auto simp: upd_jobs_def)
    then show "job (snd kv) \<noteq> k"
    proof
      assume "cl = (clients w ! c)\<lparr>jobs := g (jobs (clients w ! c))\<rparr>"
      with kv have "kv \<in> set (g (the_jobs w c))" by (simp add: the_jobs_def)
      from assms(2)[OF this] mem assms(1) show ?thesis
        by (auto simp: unreferenced_def the_jobs_def)
    next
      assume "cl \<in> set (clients w)"
      with kv assms(1) show ?thesis by (auto simp: unreferenced_def)
    qed
  qed
qed

lemma unreferenced_unregister:
  "unreferenced k w \<Longrightarrow> unreferenced k (unregisterExecutingCallback c i w)"
  unfolding unregisterExecutingCallback_def
  by (rule unreferenced_upd_jobs) (auto dest: subsetD[OF set_alist_delete])

lemma unreferenced_register:
  "unreferenced k w \<Longrightarrow> i \<noteq> k \<Longrightarrow> unreferenced k (registerExecutingCallback c i cb w)"
  unfolding registerExecutingCallback_def
  by (rule unreferenced_upd_jobs) (auto dest: subsetD[OF set_alist_update])

lemma unreferenced_lookup:
  assumes "unreferenced k w" and "c < length (clients w)" and "map_of (the_jobs w c) key = Some t"
  shows "job t \<noteq> k"
proof -
  from assms(3) have "(key, t) \<in> set (jobs (clients w ! c))"
    by (auto simp: the_jobs_def dest: map_of_SomeD)
  moreover from assms(2) have "clients w ! c \<in> set (clients w)" by simp
  with assms(1) have "\<forall>kv \<in> set (jobs (clients w ! c)). job (snd kv) \<noteq> k"
    by (simp add: unreferenced_def)
  ultimately have "job (snd (key, t)) \<noteq> k" by blast
  then show ?thesis by simp
qed

subsection \<open>Parents exist\<close>

lemma parents_allocated_iff:
  "parents_allocated w = (\<forall>r \<in> set (heap w). \<forall>p. parent r = Some p \<longrightarrow> p < length (clients w))"
  by (auto simp: parents_allocated_def split: option.splits)

lemma parents_allocated_prims [simp]:
  "parents_allocated (invoke x w) = parents_allocated w"
  "parents_allocated (send r w) = parents_allocated w"
  "parents_allocated (upd_jobs c g w) = parents_allocated w"
  "parents_allocated (unregisterExecutingCallback c i w) = parents_allocated w"
  "parents_allocated (registerExecutingCallback c i cb w) = parents_allocated w"
  by (simp_all add: parents_allocated_iff store_defs unregisterExecutingCallback_def
        registerExecutingCallback_def)

lemma parents_allocated_upd_job:
  assumes "parents_allocated w"
    and "\<And>r p. parent (f r) = Some p \<Longrightarrow> parent r = Some p \<or> p < length (clients w)"
  shows "parents_allocated (upd_job i f w)"
proof (cases "i < length (heap w)")
  case False
  with assms(1) show ?thesis
    by (simp add: parents_allocated_iff upd_job_def list_update_beyond)
next
  case True
  then have old: "heap w ! i \<in> set (heap w)" by simp
  show ?thesis
    unfolding parents_allocated_iff
  proof (intro ballI allI impI)
    fix r p
    assume r: "r \<in> set (heap (upd_job i f w))" and p: "parent r = Some p"
    from r have "r \<in> insert (f (heap w ! i)) (set (heap w))"
      using set_update_subset_insert[of "heap w" i] by (auto simp: upd_job_def)
    then have "p < length (clients w)"
    proof
      assume "r = f (heap w ! i)"
      with p assms(2)[of "heap w ! i" p] have "parent (heap w ! i) = Some p \<or> p < length (clients w)"
        by simp
      with old assms(1) show ?thesis
        by (auto simp: parents_allocated_iff)
    next
      assume "r \<in> set (heap w)"
      with p assms(1) show ?thesis
        by (auto simp: parents_allocated_iff)
    qed
    then show "p < length (clients (upd_job i f w))" by simp
  qed
qed

lemma parents_allocated_status:
  "parents_allocated w \<Longrightarrow> parents_allocated (upd_job i (\<lambda>r. r\<lparr>status := s\<rparr>) w)"
  by (rule parents_allocated_upd_job) simp_all

lemma parents_allocated_uid:
  "parents_allocated w \<Longrightarrow> parents_allocated (upd_job i (\<lambda>r. r\<lparr>uid := s\<rparr>) w)"
  by (rule parents_allocated_upd_job) simp_all

lemma parents_allocated_lookup:
  assumes "parents_allocated w" and "i < length (heap w)" and "parent (the_job w i) = Some p"
  shows "p < length (clients w)"
proof -
  from assms(2) have "heap w ! i \<in> set (heap w)" by simp
  with assms(1,3) show ?thesis
    by (auto simp: parents_allocated_iff the_job_def)
qed

subsection \<open>A detached job stays as it is\<close>

lemma detached_prims [simp]:
  "detached k J (invoke x w) = detached k J w"
  "detached k J (send r w) = detached k J w"
  by (simp_all add: detached_def)

lemma detached_status:
  "detached k J w \<Longrightarrow> i \<noteq> k \<Longrightarrow> detached k J (upd_job i (\<lambda>r. r\<lparr>status := s\<rparr>) w)"
  by (simp add: detached_def the_job_upd_job parents_allocated_status)

lemma detached_uid:
  "detached k J w \<Longrightarrow> i \<noteq> k \<Longrightarrow> detached k J (upd_job i (\<lambda>r. r\<lparr>uid := s\<rparr>) w)"
  by (simp add: detached_def the_job_upd_job parents_allocated_uid)

lemma detached_unregister:
  "detached k J w \<Longrightarrow> detached k J (unregisterExecutingCallback c i w)"
  by (simp add: detached_def unreferenced_unregister)

lemma detached_register:
  "detached k J w \<Longrightarrow> i \<noteq> k \<Longrightarrow> detached k J (registerExecutingCallback c i cb w)"
  by (simp add: detached_def unreferenced_register)

lemma detached_onError:
  "detached k J w \<Longrightarrow> job t \<noteq> k \<Longrightarrow> detached k J (snd (entry_onError t errs w))"
  by (simp add: entry_onError_def Let_def detached_status detached_unregister split: option.splits)

lemma detached_onCompleted:
  "detached k J w \<Longrightarrow> job t \<noteq> k \<Longrightarrow> detached k J (snd (entry_onCompleted t w))"
  by (simp add: entry_onCompleted_def Let_def detached_status detached_unregister split: option.splits)

lemma clients_onError [simp]:
  "length (clients (snd (entry_onError t errs w))) = length (clients w)"
  by (simp add: entry_onError_def Let_def split: option.splits)

lemma detached_force_errors:
  "detached k J w \<Longrightarrow> c < length (clients w) \<Longrightarrow> detached k J (snd (force_errors c sel keys w))"
proof (induction keys arbitrary: w)
  case Nil
  then show ?case by simp
next
  case (Cons key keys)
  show ?case
  proof (cases "map_of (the_jobs w c) key")
    case None
    with Cons show ?thesis by simp
  next
    case (Some v)
    from Cons.prems have "unreferenced k w" by (simp add: detached_def)
    from unreferenced_lookup[OF this Cons.prems(2) Some] have ne: "job v \<noteq> k" .
    obtain r w' where e: "entry_onError v (Some []) w = (r, w')"
      by (cases "entry_onError v (Some []) w")
    from detached_onError[OF Cons.prems(1) ne, of "Some []"] e have d: "detached k J w'"
      by simp
    from clients_onError[of v "Some []" w] e Cons.prems(2) have c: "c < length (clients w')"
      by simp
    from Cons.IH[OF d c] Cons.IH[OF Cons.prems] Some e d show ?thesis
      by (cases r) simp_all
  qed
qed

lemma detached_clear_queue:
  assumes "detached k J w" and "c < length (clients w)"
  shows "detached k J (snd (clear_queue c fetch w))"
proof -
  let ?w1 = "send (POST_queue_clear c) w"
  obtain r w2 where fe: "force_errors c (\<lambda>key. True) (map fst (the_jobs ?w1 c)) ?w1 = (r, w2)"
    by (cases "force_errors c (\<lambda>key. True) (map fst (the_jobs ?w1 c)) ?w1")
  from assms have "detached k J ?w1" "c < length (clients ?w1)" by simp_all
  from detached_force_errors[OF this, of "\<lambda>key. True" "map fst (the_jobs ?w1 c)"] fe
  have "detached k J w2" by simp
  with assms fe show ?thesis
    by (simp add: clear_queue_def Let_def split: option.splits sum.splits)
qed

lemma detached_delete_queue_entries:
  assumes "detached k J w" and "c < length (clients w)"
  shows "detached k J (snd (delete_queue_entries c entries fetch w))"
proof -
  let ?w1 = "send (POST_queue_delete c entries) w"
  obtain r w2 where fe: "force_errors c (\<lambda>key. key \<in> set entries) (map fst (the_jobs ?w1 c)) ?w1 = (r, w2)"
    by (cases "force_errors c (\<lambda>key. key \<in> set entries) (map fst (the_jobs ?w1 c)) ?w1")
  from assms have "detached k J ?w1" "c < length (clients ?w1)" by simp_all
  from detached_force_errors[OF this, of "\<lambda>key. key \<in> set entries" "map fst (the_jobs ?w1 c)"] fe
  have "detached k J w2" by simp
  with assms fe show ?thesis
    by (simp add: delete_queue_entries_def Let_def split: option.splits sum.splits)
qed

lemma detached_cancel:
  assumes "detached k J w" and "status J = Building" and "i < length (heap w)"
  shows "detached k J (snd (cancel i fetch w))"
proof (cases "i = k")
  case True
  with assms have "status (the_job w i) = Building" by (simp add: detached_def)
  with assms(1) show ?thesis by (simp add: cancel_def)
next
  case False
  show ?thesis
  proof (cases "parent (the_job w i)")
    case None
    with assms show ?thesis by (simp add: cancel_def)
  next
    case (Some p)
    from assms(1) have "parents_allocated w" by (simp add: detached_def)
    from parents_allocated_lookup[OF this assms(3) Some] have p: "p < length (clients w)" .
    obtain r w' where d: "delete_queue_entries p [uid (the_job w i)] fetch w = (r, w')"
      by (cases "delete_queue_entries p [uid (the_job w i)] fetch w")
    from detached_delete_queue_entries[OF assms(1) p, of "[uid (the_job w i)]" fetch] d
    have "detached k J w'" by simp
    with assms Some d show ?thesis
      by (simp add: cancel_def split: sum.splits)
  qed
qed

lemma detached_on_message:
  assumes "detached k J w" and "c < length (clients w)"
  shows "detached k J (snd (on_message c data w))"
proof (cases data)
  case (Executing pid node)
  show ?thesis
  proof (cases "map_of (the_jobs w c) (Some pid)")
    case None
    with Executing assms show ?thesis by (simp add: on_message_def)
  next
    case (Some t)
    from assms(1) have "unreferenced k w" by (simp add: detached_def)
    from unreferenced_lookup[OF this assms(2) Some] have "job t \<noteq> k" .
    with Executing Some assms(1) show ?thesis
      by (simp add: on_message_def detached_onCompleted)
  qed
qed (use assms in \<open>simp_all add: on_message_def\<close>)

lemma detached_new_job:
  "detached k J w \<Longrightarrow> detached k J (snd (new_ComfyJob wk w))"
  by (auto simp: detached_def new_ComfyJob_def the_job_def nth_append unreferenced_def
        parents_allocated_iff)

lemma clone_eq:
  "this < length (heap w) \<Longrightarrow>
   clone this w = (length (heap w), w\<lparr>heap := heap w @ [building_job (workflow (the_job w this))]\<rparr>)"
  by (simp add: clone_def new_ComfyJob_def store_defs nth_append building_job_def)

lemma detached_clone:
  "detached k J w \<Longrightarrow> i < length (heap w) \<Longrightarrow> detached k J (snd (clone i w))"
  by (auto simp: clone_eq detached_def the_job_def nth_append unreferenced_def
        parents_allocated_iff building_job_def)

lemma detached_new_client:
  "detached k J w \<Longrightarrow> detached k J (snd (new_ComfyClient w))"
  by (auto simp: detached_def new_ComfyClient_def the_job_def unreferenced_def
        parents_allocated_iff less_Suc_eq)

lemma detached_set_parent:
  assumes "detached k J w" and "i \<noteq> k" and "p < length (clients w)"
  shows "detached k J (upd_job i (\<lambda>r. r\<lparr>parent := Some p, onCompleted := a, onUpdate := b, onError := c\<rparr>) w)"
proof -
  from assms(1) have pa: "parents_allocated w" by (simp add: detached_def)
  have "parents_allocated (upd_job i (\<lambda>r. r\<lparr>parent := Some p, onCompleted := a, onUpdate := b, onError := c\<rparr>) w)"
    by (rule parents_allocated_upd_job[OF pa]) (use assms(3) in simp)
  with assms(1,2) show ?thesis
    by (simp add: detached_def the_job_upd_job)
qed

lemma detached_queue:
  assumes "detached k J w" and "i \<noteq> k" and "p < length (clients w)"
  shows "detached k J (snd (queue i p cbs fetch w))"
  using assms
  by (simp add: queue_def Let_def post_prompt_def detached_set_parent detached_status detached_uid
        detached_register split: option.splits)

lemma detached_exec:
  assumes "detached k J w" and "status J = Building" and "\<not> is_queue_of k x"
  shows "detached k J (exec x w)"
  using assms
  by (cases x)
     (simp_all add: detached_new_job detached_new_client detached_clone detached_queue
        detached_cancel detached_on_message detached_clear_queue detached_delete_queue_entries)

lemma detached_run:
  "detached k J w \<Longrightarrow> status J = Building \<Longrightarrow> \<forall>x \<in> set ops. \<not> is_queue_of k x
   \<Longrightarrow> detached k J (run ops w)"
  unfolding run_def by (induction ops arbitrary: w) (simp_all add: detached_exec)

lemma allocated_unreferenced:
  assumes "entries_allocated w" and "length (heap w) \<le> k"
  shows "unreferenced k w"
  unfolding unreferenced_def
proof (intro ballI)
  fix cl kv
  assume "cl \<in> set (clients w)" and "kv \<in> set (jobs cl)"
  with assms(1) have "job (snd kv) < length (heap w)"
    unfolding entries_allocated_def by blast
  with assms(2) show "job (snd kv) \<noteq> k" by simp
qed

lemma clone_detached:
  assumes "entries_allocated w" and "parents_allocated w" and "this < length (heap w)"
  shows "detached (length (heap w)) (building_job (workflow (the_job w this))) (snd (clone this w))"
proof -
  let ?w' = "w\<lparr>heap := heap w @ [building_job (workflow (the_job w this))]\<rparr>"
  from allocated_unreferenced[OF assms(1), of "length (heap w)"]
  have "unreferenced (length (heap w)) ?w'"
    by (simp add: unreferenced_def)
  moreover from assms(2) have "parents_allocated ?w'"
    by (auto simp: parents_allocated_iff building_job_def)
  ultimately show ?thesis
    using assms(3) by (simp add: clone_eq detached_def the_job_def)
qed

subsection \<open>Every reachable state is well-formed\<close>

lemma entries_allocated_prims [simp]:
  "entries_allocated (upd_job i f w) = entries_allocated w"
  "entries_allocated (invoke x w) = entries_allocated w"
  "entries_allocated (send r w) = entries_allocated w"
  by (simp_all add: entries_allocated_def)

lemma entries_allocated_upd_jobs:
  assumes "entries_allocated w"
    and "\<And>kv. kv \<in> set (g (the_jobs w c)) \<Longrightarrow> kv \<in> set (the_jobs w c) \<or> job (snd kv) < length (heap w)"
  shows "entries_allocated (upd_jobs c g w)"
proof (cases "c < length (clients w)")
  case False
  with assms(1) show ?thesis
    by (simp add: entries_allocated_def upd_jobs_def list_update_beyond)
next
  case True
  then have mem: "clients w ! c \<in> set (clients w)" by simp
  show ?thesis
    unfolding entries_allocated_def
  proof (intro ballI)
    fix cl kv
    assume cl: "cl \<in> set (clients (upd_jobs c g w))" and kv: "kv \<in> set (jobs cl)"
    from cl have "cl \<in> insert ((clients w ! c)\<lparr>jobs := g (jobs (clients w ! c))\<rparr>) (set (clients w))"
      using set_update_subset_insert[of "clients w" c] by (auto simp: upd_jobs_def)
    then have "job (snd kv) < length (heap w)"
    proof
      assume "cl = (clients w ! c)\<lparr>jobs := g (jobs (clients w ! c))\<rparr>"
      with kv have "kv \<in> set (g (the_jobs w c))" by (simp add: the_jobs_def)
      from assms(2)[OF this] mem assms(1) show ?thesis
        by (auto simp: entries_allocated_def the_jobs_def)
    next
      assume "cl \<in> set (clients w)"
      with kv assms(1) show ?thesis by (auto simp: entries_allocated_def)
    qed
    then show "job (snd kv) < length (heap (upd_jobs c g w))" by simp
  qed
qed

lemma entries_allocated_unregister:
  "entries_allocated w \<Longrightarrow> entries_allocated (unregisterExecutingCallback c i w)"
  unfolding unregisterExecutingCallback_def
  by (rule entries_allocated_upd_jobs) (auto dest: subsetD[OF set_alist_delete])

lemma entries_allocated_register:
  "entries_allocated w \<Longrightarrow> i < length (heap w) \<Longrightarrow> entries_allocated (registerExecutingCallback c i cb w)"
  unfolding registerExecutingCallback_def
  by (rule entries_allocated_upd_jobs) (auto dest: subsetD[OF set_alist_update])

lemma wellformed_prims [simp]:
  "wellformed (invoke x w) = wellformed w"
  "wellformed (send r w) = wellformed w"
  by (simp_all add: wellformed_def)

lemma wellformed_status:
  "wellformed w \<Longrightarrow> wellformed (upd_job i (\<lambda>r. r\<lparr>status := s\<rparr>) w)"
  by (simp add: wellformed_def parents_allocated_status)

lemma wellformed_uid:
  "wellformed w \<Longrightarrow> wellformed (upd_job i (\<lambda>r. r\<lparr>uid := s\<rparr>) w)"
  by (simp add: wellformed_def parents_allocated_uid)

lemma wellformed_unregister:
  "wellformed w \<Longrightarrow> wellformed (unregisterExecutingCallback c i w)"
  by (simp add: wellformed_def entries_allocated_unregister)

lemma wellformed_register:
  "wellformed w \<Longrightarrow> i < length (heap w) \<Longrightarrow> wellformed (registerExecutingCallback c i cb w)"
  by (simp add: wellformed_def entries_allocated_register)

lemma wellformed_onError:
  "wellformed w \<Longrightarrow> wellformed (snd (entry_onError t errs w))"
  by (simp add: entry_onError_def Let_def wellformed_status wellformed_unregister split: option.splits)

lemma wellformed_onCompleted:
  "wellformed w \<Longrightarrow> wellformed (snd (entry_onCompleted t w))"
  by (simp add: entry_onCompleted_def Let_def wellformed_status wellformed_unregister split: option.splits)

lemma wellformed_force_errors:
  "wellformed w \<Longrightarrow> wellformed (snd (force_errors c sel keys w))"
proof (induction keys arbitrary: w)
  case Nil
  then show ?case by simp
next
  case (Cons key keys)
  show ?case
  proof (cases "map_of (the_jobs w c) key")
    case None
    with Cons show ?thesis by simp
  next
    case (Some v)
    obtain r w' where e: "entry_onError v (Some []) w = (r, w')"
      by (cases "entry_onError v (Some []) w")
    from wellformed_onError[OF Cons.prems, of v "Some []"] e have d: "wellformed w'"
      by simp
    from Cons.IH[OF d] Cons.IH[OF Cons.prems] Some e d show ?thesis
      by (cases r) simp_all
  qed
qed

lemma wellformed_clear_queue:
  assumes "wellformed w"
  shows "wellformed (snd (clear_queue c fetch w))"
proof -
  let ?w1 = "send (POST_queue_clear c) w"
  obtain r w2 where fe: "force_errors c (\<lambda>key. True) (map fst (the_jobs ?w1 c)) ?w1 = (r, w2)"
    by (cases "force_errors c (\<lambda>key. True) (map fst (the_jobs ?w1 c)) ?w1")
  from assms have "wellformed ?w1" by simp
  from wellformed_force_errors[OF this, of c "\<lambda>key. True" "map fst (the_jobs ?w1 c)"] fe
  have "wellformed w2" by simp
  with assms fe show ?thesis
    by (simp add: clear_queue_def Let_def split: option.splits sum.splits)
qed

lemma wellformed_delete_queue_entries:
  assumes "wellformed w"
  shows "wellformed (snd (delete_queue_entries c entries fetch w))"
proof -
  let ?w1 = "send (POST_queue_delete c entries) w"
  obtain r w2 where fe: "force_errors c (\<lambda>key. key \<in> set entries) (map fst (the_jobs ?w1 c)) ?w1 = (r, w2)"
    by (cases "force_errors c (\<lambda>key. key \<in> set entries) (map fst (the_jobs ?w1 c)) ?w1")
  from assms have "wellformed ?w1" by simp
  from wellformed_force_errors[OF this, of c "\<lambda>key. key \<in> set entries" "map fst (the_jobs ?w1 c)"] fe
  have "wellformed w2" by simp
  with assms fe show ?thesis
    by (simp add: delete_queue_entries_def Let_def split: option.splits sum.splits)
qed

lemma wellformed_cancel:
  assumes "wellformed w"
  shows "wellformed (snd (cancel i fetch w))"
proof (cases "parent (the_job w i)")
  case None
  with assms show ?thesis by (simp add: cancel_def)
next
  case (Some p)
  obtain r w' where d: "delete_queue_entries p [uid (the_job w i)] fetch w = (r, w')"
    by (cases "delete_queue_entries p [uid (the_job w i)] fetch w")
  from wellformed_delete_queue_entries[OF assms, of p "[uid (the_job w i)]" fetch] d
  have "wellformed w'" by simp
  with assms Some d show ?thesis
    by (simp add: cancel_def split: sum.splits)
qed

lemma wellformed_on_message:
  "wellformed w \<Longrightarrow> wellformed (snd (on_message c data w))"
  by (simp add: on_message_def wellformed_onCompleted split: message.splits option.splits)

lemma wellformed_new_job:
  "wellformed w \<Longrightarrow> wellformed (snd (new_ComfyJob wk w))"
  by (auto simp: wellformed_def new_ComfyJob_def entries_allocated_def parents_allocated_iff
        less_Suc_eq)

lemma wellformed_clone:
  "wellformed w \<Longrightarrow> i < length (heap w) \<Longrightarrow> wellformed (snd (clone i w))"
  by (auto simp: clone_eq wellformed_def entries_allocated_def parents_allocated_iff
        building_job_def less_Suc_eq)

lemma wellformed_new_client:
  "wellformed w \<Longrightarrow> wellformed (snd (new_ComfyClient w))"
  by (auto simp: wellformed_def new_ComfyClient_def entries_allocated_def parents_allocated_iff
        less_Suc_eq)

lemma wellformed_set_parent:
  assumes "wellformed w" and "p < length (clients w)"
  shows "wellformed (upd_job i (\<lambda>r. r\<lparr>parent := Some p, onCompleted := a, onUpdate := b, onError := c\<rparr>) w)"
proof -
  from assms(1) have pa: "parents_allocated w" by (simp add: wellformed_def)
  have "parents_allocated (upd_job i (\<lambda>r. r\<lparr>parent := Some p, onCompleted := a, onUpdate := b, onError := c\<rparr>) w)"
    by (rule parents_allocated_upd_job[OF pa]) (use assms(2) in simp)
  with assms(1) show ?thesis
    by (simp add: wellformed_def)
qed

lemma wellformed_queue:
  assumes "wellformed w" and "i < length (heap w)" and "p < length (clients w)"
  shows "wellformed (snd (queue i p cbs fetch w))"
  using assms
  by (simp add: queue_def Let_def post_prompt_def wellformed_set_parent wellformed_status
        wellformed_uid wellformed_register split: option.splits)

lemma wellformed_exec:
  "wellformed w \<Longrightarrow> wellformed (exec x w)"
  by (cases x)
     (simp_all add: wellformed_new_job wellformed_new_client wellformed_clone wellformed_queue
        wellformed_cancel wellformed_on_message wellformed_clear_queue wellformed_delete_queue_entries)

lemma wellformed_run:
  "wellformed w \<Longrightarrow> wellformed (run ops w)"
  unfolding run_def by (induction ops arbitrary: w) (simp_all add: wellformed_exec)

lemma wellformed_reachable:
  "wellformed (run ops empty_world)"
  by (rule wellformed_run)
     (simp add: wellformed_def entries_allocated_def parents_allocated_def empty_world_def)

subsection \<open>Submitting a building job\<close>

lemma queue_building:
  assumes "k < length (heap w)" and "status (the_job w k) = Building"
    and "ok tmp" and "json tmp = Some b"
  shows "fst (queue k p cbs (Some tmp) w) = Inr ()"
    and "status (the_job (snd (queue k p cbs (Some tmp) w)) k)
           = (if node_errors b = [] then Queued else Failed)"
    and "uid (the_job (snd (queue k p cbs (Some tmp) w)) k) = Some (prompt_id b)"
    and "requests (snd (queue k p cbs (Some tmp) w)) = requests w @ [POST_prompt p (workflow (the_job w k))]"
  using assms
  by (simp_all add: queue_def post_prompt_def Let_def the_job_upd_job)

section \<open>Progress events\<close>

text \<open>
  C1. The claim: a progress event with a step indicator puts a queued job in state
  running and invokes its progress callback, so that the steps 3, 7, null drive the job
  through queued, running, running, completed with two progress calls. In the source the
  listener has no branch for a present step indicator. Evaluated on job 0, queued under
  \<open>X\<close> with all four callbacks supplied: the job stays queued through both progress
  events, the progress callback is never invoked, and the final event completes the job,
  invokes the completion callback once and removes the entry.
\<close>

theorem progress_events_leave_job_queued:
  "statuses 0 (trace [Message 0 (Executing ''X'' (Some 3)),
                      Message 0 (Executing ''X'' (Some 7)),
                      Message 0 (Executing ''X'' None)] queued_world)
     = [Queued, Queued, Queued, Completed]
   \<and> calls (run [Message 0 (Executing ''X'' (Some 3)),
                 Message 0 (Executing ''X'' (Some 7)),
                 Message 0 (Executing ''X'' None)] queued_world) = [OnCompleted 0]
   \<and> map_of (the_jobs (run [Message 0 (Executing ''X'' (Some 3)),
                            Message 0 (Executing ''X'' (Some 7)),
                            Message 0 (Executing ''X'' None)] queued_world) 0) (Some ''X'') = None"
  by code_simp

section \<open>Submission with node errors\<close>

text \<open>
  C2. The claim: after a submission whose response carries a non-empty node-error map
  the job is failed, its error callback was invoked with the reported errors, and the
  Registry holds no entry for the job. Evaluated on job 0 submitted to client 0 with a
  response that reports an error for node 5: the job is failed and the error callback
  was invoked (with \<open>tmp.errors\<close>, a field this response does not have), but \<open>queue\<close>
  goes on to \<open>registerExecutingCallback\<close>, and the entry is in the Registry under \<open>X\<close>.
\<close>

theorem failed_submission_is_registered:
  "status (the_job rejected_world 0) = Failed
   \<and> calls rejected_world = [OnError 0 None]
   \<and> map_of (the_jobs rejected_world 0) (Some ''X'') = Some \<lparr>job = 0, handlers = all_callbacks\<rparr>"
  by code_simp

section \<open>Cancelling a queued or running job\<close>

text \<open>
  C3. The claim: for a job in state queued or running, \<open>cancel\<close> issues a
  delete-queue-entry request for the job's identity, and on the deletion response the job
  becomes cancelled with its cancellation callback invoked. The source declares the state
  \<open>cancelled\<close>, names it in the guard of \<open>cancel\<close>, documents \<open>onCancelled\<close> and
  registers a handler that sets the state, but nothing calls that handler. Evaluated on
  job 0, queued under \<open>X\<close> with all four callbacks supplied, and a successful deletion
  response: the job is failed, not cancelled, and the only callback invoked is the error
  callback, with an empty list.
\<close>

theorem cancel_does_not_cancel:
  "status (the_job queued_world 0) = Queued
   \<and> status (the_job (snd (cancel 0 done_ok queued_world)) 0) = Failed
   \<and> calls (snd (cancel 0 done_ok queued_world)) = [OnError 0 (Some [])]"
  by code_simp

text \<open>
  The same holds in every state, not only in the one evaluated. For a job in state queued
  or running whose parent is client \<open>p\<close>, \<open>cancel\<close> issues exactly one request, a
  delete-queue-entry on \<open>p\<close> naming the job's identity, whatever the response. When the
  response is a success and the job is registered under its identity on \<open>p\<close>, the
  source takes the job through the error handler: the state written is failed, the only
  callback invoked is the error callback, and the entry is removed. The handler for
  cancellation is on no path.
\<close>

lemma cancel_runs_error_handler:
  assumes "status (the_job w this) \<in> {Queued, Running}"
    and "parent (the_job w this) = Some p"
  shows "requests (snd (cancel this fetch w)) = requests w @ [POST_queue_delete p [uid (the_job w this)]]
    \<and> (this < length (heap w) \<and> p < length (clients w)
        \<and> map_of (the_jobs w p) (uid (the_job w this)) = Some t \<and> job t = this
        \<and> fetch = Some tmp \<and> ok tmp
       \<longrightarrow> status (the_job (snd (cancel this fetch w)) this) = Failed
          \<and> calls (snd (cancel this fetch w))
              = calls w @ (if cb_onError (handlers t) then [OnError this (Some [])] else [])
          \<and> map_of (the_jobs (snd (cancel this fetch w)) p) (uid (the_job w this)) = None)"
proof (intro conjI impI)
  show "requests (snd (cancel this fetch w)) = requests w @ [POST_queue_delete p [uid (the_job w this)]]"
    using assms by (rule cancel_sends_delete)
next
  assume a: "this < length (heap w) \<and> p < length (clients w)
        \<and> map_of (the_jobs w p) (uid (the_job w this)) = Some t \<and> job t = this
        \<and> fetch = Some tmp \<and> ok tmp"
  let ?u = "uid (the_job w this)"
  let ?w1 = "send (POST_queue_delete p [?u]) w"
  let ?w2 = "snd (entry_onError t (Some []) ?w1)"
  have pre: "this < length (heap ?w1)" "p < length (clients ?w1)"
    "parent (the_job ?w1 this) = Some p" "uid (the_job ?w1 this) = ?u" "job t = this"
    using assms a by simp_all
  note h = entry_onError_registered[OF pre, of "Some []"]
  have reg: "map_of (the_jobs ?w1 p) ?u = Some t"
    using a by simp
  then have "?u \<in> set (map fst (the_jobs ?w1 p))"
    by (metis map_of_eq_None_iff option.distinct(1) set_map)
  from force_errors_single[OF reg h(1) h(3) this]
  have loop: "force_errors p (\<lambda>k. k = ?u) (map fst (the_jobs ?w1 p)) ?w1 = (Inr (), ?w2)" .
  have eq: "snd (cancel this fetch w) = ?w2"
    using assms a loop
    by (auto simp: cancel_def delete_queue_entries_def Let_def split: option.splits)
  show "status (the_job (snd (cancel this fetch w)) this) = Failed"
    using h(2) eq by simp
  show "calls (snd (cancel this fetch w))
              = calls w @ (if cb_onError (handlers t) then [OnError this (Some [])] else [])"
    using h(4) eq by simp
  show "map_of (the_jobs (snd (cancel this fetch w)) p) (uid (the_job w this)) = None"
    using h(3) eq by simp
qed

lemma cancel_runs_error_handler_on_queued_job:
  "status (the_job queued_world 0) \<in> {Queued, Running}
   \<and> parent (the_job queued_world 0) = Some 0
   \<and> requests (snd (cancel 0 done_ok queued_world))
       = requests queued_world @ [POST_queue_delete 0 [Some ''X'']]
   \<and> 0 < length (heap queued_world) \<and> 0 < length (clients queued_world)
   \<and> map_of (the_jobs queued_world 0) (Some ''X'') = Some \<lparr>job = 0, handlers = all_callbacks\<rparr>
   \<and> status (the_job (snd (cancel 0 done_ok queued_world)) 0) = Failed
   \<and> calls (snd (cancel 0 done_ok queued_world)) = calls queued_world @ [OnError 0 (Some [])]
   \<and> map_of (the_jobs (snd (cancel 0 done_ok queued_world)) 0) (Some ''X'') = None"
proof -
  have a: "status (the_job queued_world 0) \<in> {Queued, Running}" by code_simp
  have b: "parent (the_job queued_world 0) = Some 0" by code_simp
  have c: "0 < length (heap queued_world) \<and> 0 < length (clients queued_world)" by code_simp
  have u: "uid (the_job queued_world 0) = Some ''X''" by code_simp
  have d: "map_of (the_jobs queued_world 0) (Some ''X'') = Some \<lparr>job = 0, handlers = all_callbacks\<rparr>"
    by code_simp
  have e: "cb_onError all_callbacks" by (simp add: all_callbacks_def)
  from cancel_runs_error_handler[OF a b, of done_ok "\<lparr>job = 0, handlers = all_callbacks\<rparr>"
         "Response True ''OK'' 200 (Some ''{}'')"] a b c u d e
  show ?thesis by (simp add: done_ok_def)
qed

section \<open>Paths through the state machine\<close>

text \<open>
  C4. The claim: no job that has reached a terminal state enters a different terminal
  state. Evaluated on job 0 submitted with a response that reports node errors, followed
  by the final \<open>executing\<close> frame for its identity: the job is building, then failed,
  then completed, and both the error and the completion callback have run.
\<close>

theorem failed_job_becomes_completed:
  "statuses 0 (trace [Queue 0 0 all_callbacks accepted_with_node_errors,
                      Message 0 (Executing ''X'' None)] fresh_world)
     = [Building, Failed, Completed]
   \<and> calls (run [Queue 0 0 all_callbacks accepted_with_node_errors,
                 Message 0 (Executing ''X'' None)] fresh_world) = [OnError 0 None, OnCompleted 0]"
  by code_simp

section \<open>Waiting for completion\<close>

text \<open>
  C5. The claim: whenever \<open>completion\<close> returns, the job is completed, failed or
  cancelled. Evaluated on job 0 queued under \<open>X\<close>: \<open>completion\<close> returns at once, the
  state is untouched and the job is still queued.
\<close>

theorem completion_returns_on_queued_job:
  "status (the_job queued_world 0) = Queued \<and> completion 0 queued_world = Some queued_world"
proof -
  have q: "status (the_job queued_world 0) = Queued"
    by code_simp
  then have "completion 0 queued_world = Some queued_world"
    by (simp add: completion_not_running)
  with q show ?thesis by simp
qed

section \<open>Bulk queue-clear\<close>

text \<open>
  C6. The claim: a successful queue-clear leaves every job that was already terminal
  untouched, state and callbacks. Evaluated on job 0 failed at submission (node errors
  reported, error callback invoked once): the job is still in the Registry, so the
  queue-clear invokes its error callback a second time before the entry goes.
\<close>

theorem clear_queue_fails_failed_job_again:
  "status (the_job rejected_world 0) = Failed
   \<and> calls rejected_world = [OnError 0 None]
   \<and> fst (clear_queue 0 done_ok rejected_world) = Inr ''{}''
   \<and> calls (snd (clear_queue 0 done_ok rejected_world)) = [OnError 0 None, OnError 0 (Some [])]
   \<and> the_jobs (snd (clear_queue 0 done_ok rejected_world)) 0 = []"
  by code_simp

section \<open>Submitting twice\<close>

text \<open>
  C7, as claimed: once a first call of \<open>queue\<close> has completed, with success or with
  failure, every later call on the same job throws the error of line 72. A first call can
  fail by throwing: \<open>post_prompt\<close> throws on a non-success status before \<open>queue\<close> has
  written the status. Evaluated on job 0 and a first call answered with
  \<open>400 Bad Request\<close>: the first call throws the request error, the second call, answered
  with \<open>200 OK\<close>, returns without an error and the job is queued.
\<close>

theorem queue_again_after_request_failure:
  "fst (queue 0 0 all_callbacks refused fresh_world) = Inl (RequestFailed ''Bad Request'' 400)
   \<and> fst (queue 0 0 all_callbacks accepted (snd (queue 0 0 all_callbacks refused fresh_world))) = Inr ()
   \<and> status (the_job (snd (queue 0 0 all_callbacks accepted
         (snd (queue 0 0 all_callbacks refused fresh_world)))) 0) = Queued"
  by code_simp

text \<open>
  C7, amended. Once a first call of \<open>queue\<close> on a job has returned without throwing,
  with the job queued (success) or failed on reported node errors (failure), every later
  call of \<open>queue\<close> on that job throws the error of line 72 and changes nothing, whatever
  client, callbacks and response it is given and whatever steps were run in between,
  further attempts included.
\<close>

theorem second_queue_throws:
  assumes "this < length (heap w)"
    and "fst (queue this p cbs fetch w) = Inr ()"
  shows "queue this p' cbs' fetch' (run ops (snd (queue this p cbs fetch w)))
         = (Inl AlreadyQueued, run ops (snd (queue this p cbs fetch w)))"
  by (rule queue_refuses_submitted, rule submitted_run, rule queue_returns_submitted) fact+

theorem second_queue_throws_witness:
  "0 < length (heap fresh_world)
   \<and> fst (queue 0 0 all_callbacks accepted fresh_world) = Inr ()
   \<and> fst (queue 0 0 all_callbacks accepted_with_node_errors fresh_world) = Inr ()
   \<and> queue 0 0 all_callbacks accepted
        (run [Queue 0 0 all_callbacks accepted, Message 0 (Executing ''X'' None)]
           (snd (queue 0 0 all_callbacks accepted fresh_world)))
      = (Inl AlreadyQueued,
         run [Queue 0 0 all_callbacks accepted, Message 0 (Executing ''X'' None)]
           (snd (queue 0 0 all_callbacks accepted fresh_world)))
   \<and> queue 0 0 all_callbacks accepted
        (run [] (snd (queue 0 0 all_callbacks accepted_with_node_errors fresh_world)))
      = (Inl AlreadyQueued,
         run [] (snd (queue 0 0 all_callbacks accepted_with_node_errors fresh_world)))"
proof -
  have a: "0 < length (heap fresh_world)" by code_simp
  have b: "fst (queue 0 0 all_callbacks accepted fresh_world) = Inr ()" by code_simp
  have c: "fst (queue 0 0 all_callbacks accepted_with_node_errors fresh_world) = Inr ()" by code_simp
  from second_queue_throws[OF a b] second_queue_throws[OF a c] a b c
  show ?thesis by simp
qed

section \<open>Cancelling outside queued and running\<close>

text \<open>
  C8. For a job in state building, failed, completed or cancelled, \<open>cancel\<close> returns
  without an error and the whole state is as before: the job, the registries, the call
  log and the log of requests, so no deletion request was issued.
\<close>

theorem cancel_is_noop_when_not_active:
  "status (the_job w this) \<in> {Building, Failed, Completed, Cancelled}
   \<Longrightarrow> cancel this fetch w = (Inr (), w)"
  by (auto simp: cancel_def)

theorem cancel_is_noop_when_not_active_witness:
  "status (the_job completed_world 0) \<in> {Building, Failed, Completed, Cancelled}
   \<and> cancel 0 done_ok completed_world = (Inr (), completed_world)"
proof -
  have h: "status (the_job completed_world 0) \<in> {Building, Failed, Completed, Cancelled}"
    by code_simp
  from cancel_is_noop_when_not_active[OF h] h show ?thesis by simp
qed

section \<open>Cloning\<close>

text \<open>
  C9. In every state the system can reach, \<open>clone\<close> of an existing job, in whatever
  lifecycle state, returns a reference that was not in use and adds one job to the store,
  changing nothing else: the new job is building, has no identity and no parent, and
  carries the payload of the original. After any further steps that do not submit the
  clone itself (steps on the original, frames of the stream, bulk operations) the clone
  is exactly as it was built. Submitting it then succeeds on its own account: the request
  carries the original's payload, and the clone becomes queued under the identity of the
  response (failed if that response reports node errors), whatever became of the original.
\<close>

theorem clone_is_fresh_and_independent:
  assumes "w = run history empty_world"
    and "this < length (heap w)"
    and "clone this w = (k, w1)"
    and "\<forall>x \<in> set ops. \<not> is_queue_of k x"
  shows "k = length (heap w)
    \<and> w1 = w\<lparr>heap := heap w @ [building_job (workflow (the_job w this))]\<rparr>
    \<and> the_job (run ops w1) k = building_job (workflow (the_job w this))
    \<and> (ok tmp \<and> json tmp = Some b \<longrightarrow>
         fst (queue k p cbs (Some tmp) (run ops w1)) = Inr ()
         \<and> status (the_job (snd (queue k p cbs (Some tmp) (run ops w1))) k)
             = (if node_errors b = [] then Queued else Failed)
         \<and> uid (the_job (snd (queue k p cbs (Some tmp) (run ops w1))) k) = Some (prompt_id b)
         \<and> requests (snd (queue k p cbs (Some tmp) (run ops w1)))
             = requests (run ops w1) @ [POST_prompt p (workflow (the_job w this))])"
proof -
  let ?J = "building_job (workflow (the_job w this))"
  from assms(1) have wf: "entries_allocated w" "parents_allocated w"
    using wellformed_reachable[of history] by (simp_all add: wellformed_def)
  from assms(2,3) have k: "k = length (heap w)" and w1: "w1 = w\<lparr>heap := heap w @ [?J]\<rparr>"
    by (simp_all add: clone_eq)
  from clone_detached[OF wf assms(2)] assms(3) k have "detached k ?J w1"
    by simp
  moreover have b: "status ?J = Building"
    by (simp add: building_job_def)
  ultimately have d: "detached k ?J (run ops w1)"
    using assms(4) by (rule detached_run)
  then have lt: "k < length (heap (run ops w1))" and eq: "the_job (run ops w1) k = ?J"
    by (simp_all add: detached_def)
  from eq b have st: "status (the_job (run ops w1) k) = Building"
    by simp
  have wk: "workflow (the_job (run ops w1) k) = workflow (the_job w this)"
    using eq by (simp add: building_job_def)
  show ?thesis
    using k w1 eq queue_building[OF lt st, of tmp b p cbs] wk by simp
qed

theorem clone_is_fresh_and_independent_witness:
  "queued_world = run [New_client, New_job ''{3: KSampler}'', Queue 0 0 all_callbacks accepted] empty_world
   \<and> 0 < length (heap queued_world)
   \<and> clone 0 queued_world = (1, snd (clone 0 queued_world))
   \<and> status (the_job (run [Message 0 (Executing ''X'' (Some 3)), Message 0 (Executing ''X'' None),
                   Cancel 0 done_ok, Cancel 1 done_ok, Clear_queue 0 done_ok] (snd (clone 0 queued_world))) 0) = Completed
   \<and> the_job (run [Message 0 (Executing ''X'' (Some 3)), Message 0 (Executing ''X'' None),
                   Cancel 0 done_ok, Cancel 1 done_ok, Clear_queue 0 done_ok] (snd (clone 0 queued_world))) 1
       = building_job (workflow (the_job queued_world 0))
   \<and> status (the_job (snd (queue 1 0 all_callbacks accepted_as_Y
         (run [Message 0 (Executing ''X'' (Some 3)), Message 0 (Executing ''X'' None),
               Cancel 0 done_ok, Cancel 1 done_ok, Clear_queue 0 done_ok] (snd (clone 0 queued_world))))) 1) = Queued"
proof -
  let ?ops = "[Message 0 (Executing ''X'' (Some 3)), Message 0 (Executing ''X'' None),
               Cancel 0 done_ok, Cancel 1 done_ok, Clear_queue 0 done_ok]"
  let ?r = "\<lparr>prompt_id = ''Y'', node_errors = [], reply_errors = None\<rparr>"
  let ?tmp = "Response True ''OK'' 200 (Some ?r)"
  let ?w = "run ?ops (snd (clone 0 queued_world))"
  have a: "queued_world = run [New_client, New_job ''{3: KSampler}'', Queue 0 0 all_callbacks accepted] empty_world"
    by (simp add: queued_world_def fresh_world_def run_def)
  have c: "0 < length (heap queued_world)" by code_simp
  have d: "clone 0 queued_world = (1, snd (clone 0 queued_world))" by code_simp
  have e: "\<forall>x \<in> set ?ops. \<not> is_queue_of 1 x" by simp
  have f: "status (the_job ?w 0) = Completed" by code_simp
  have g: "ok ?tmp \<and> json ?tmp = Some ?r" by simp
  note t = clone_is_fresh_and_independent[OF a c d e, of ?tmp ?r 0 all_callbacks]
  from t have h: "the_job ?w 1 = building_job (workflow (the_job queued_world 0))"
    by blast
  from t g have "status (the_job (snd (queue 1 0 all_callbacks (Some ?tmp) ?w)) 1)
      = (if node_errors ?r = [] then Queued else Failed)"
    by blast
  then have i: "status (the_job (snd (queue 1 0 all_callbacks accepted_as_Y ?w)) 1) = Queued"
    by (simp add: accepted_as_Y_def)
  from a c d f h i show ?thesis by blast
qed

section \<open>A submission request that fails\<close>

text \<open>
  C10. When the backend answers the submission request with a non-success status,
  \<open>post_prompt\<close> throws and \<open>queue\<close> lets the error through: the caller gets the error
  made of the status text and code, the job is still building, its identity is still
  undefined and no registry of any client has changed.
\<close>

theorem queue_propagates_request_failure:
  assumes "status (the_job w this) = Building"
    and "uid (the_job w this) = None"
    and "\<not> ok tmp"
  shows "fst (queue this p cbs (Some tmp) w) = Inl (RequestFailed (statusText tmp) (status_code tmp))
    \<and> status (the_job (snd (queue this p cbs (Some tmp) w)) this) = Building
    \<and> uid (the_job (snd (queue this p cbs (Some tmp) w)) this) = None
    \<and> clients (snd (queue this p cbs (Some tmp) w)) = clients w"
  using assms
  by (cases "this < length (heap w)")
     (simp_all add: queue_def post_prompt_def store_defs Let_def list_update_beyond)

theorem queue_propagates_request_failure_witness:
  "status (the_job fresh_world 0) = Building
   \<and> uid (the_job fresh_world 0) = None
   \<and> \<not> ok (Response False ''Bad Request'' 400 None)
   \<and> fst (queue 0 0 all_callbacks refused fresh_world) = Inl (RequestFailed ''Bad Request'' 400)
   \<and> status (the_job (snd (queue 0 0 all_callbacks refused fresh_world)) 0) = Building
   \<and> uid (the_job (snd (queue 0 0 all_callbacks refused fresh_world)) 0) = None
   \<and> clients (snd (queue 0 0 all_callbacks refused fresh_world)) = clients fresh_world"
proof -
  have a: "status (the_job fresh_world 0) = Building"
    by code_simp
  have b: "uid (the_job fresh_world 0) = None"
    by code_simp
  have c: "\<not> ok (Response False ''Bad Request'' 400 (None :: prompt_reply option))"
    by simp
  from queue_propagates_request_failure[OF a b c, of 0 all_callbacks] a b c
  show ?thesis by (simp add: refused_def)
qed

end
